theory Spec2Isabelle
  imports Main
begin

section \<open>Data model\<close>

text \<open>
  Modelled from the spec: the sentinel \<^verbatim>\<open>ErrForbidden\<close> is declared in a file of the
  repository that is not among the sources; the spec calls it the Forbidden kind, the
  result of a denied decision.

  The other errors. The engine wraps what it returns with \<^verbatim>\<open>errors.New(err)\<close> of
  go-errors, which builds a new error value around the given one; \<open>Wrapped\<close> is that
  wrapper (the recorded stack is left out). \<open>External\<close> holds an error value produced by
  a collaborator: the Manager, the pattern compiler, the JSON encoder or the Redis
  client; such a value is never the sentinel. \<open>ErrorString\<close> is \<^verbatim>\<open>errors.New("...")\<close>
  of pkg/errors, an error made from a message.
\<close>

datatype 'e error = ErrForbidden | ErrorString string | External 'e | Wrapped "'e error"

text \<open>
  The struct \<^verbatim>\<open>Request\<close>. The context is only ever handed to conditions, so its type is
  left open.
\<close>

record 'c Request =
  Resource :: string
  Action :: string
  Subject :: string
  Context :: 'c

text \<open>
  A \<^verbatim>\<open>Condition\<close> is an interface with the one method \<^verbatim>\<open>Fulfills(r) bool\<close>
  (\<^verbatim>\<open>FullFills\<close> in the older engine); a condition is modelled as that method.
  \<^verbatim>\<open>Conditions\<close> is ranged over by \<^verbatim>\<open>for _, condition := range ...\<close>; the list gives
  the named conditions in the order in which one run of the loop visits them.
\<close>

type_synonym 'c Condition = "'c Request \<Rightarrow> bool"

type_synonym 'c Conditions = "(string \<times> 'c Condition) list"

text \<open>The struct \<^verbatim>\<open>DefaultPolicy\<close>, the implementation of the interface \<^verbatim>\<open>Policy\<close>.\<close>

record 'c DefaultPolicy =
  ID :: string
  Description :: string
  Subjects :: "string list"
  Effect :: string
  Resources :: "string list"
  Actions :: "string list"
  Conditions :: "'c Conditions"

text \<open>
  Modelled from the spec: the constant \<^verbatim>\<open>AllowAccess\<close> that the method
  \<^verbatim>\<open>AllowAccess\<close> compares the effect with is declared outside the sources. The effect
  is one of allow and deny, and the interface \<^verbatim>\<open>Policy\<close> documents the two strings as
  \<^verbatim>\<open>'allow'\<close> and \<^verbatim>\<open>'deny'\<close>.
\<close>

definition AllowAccess_effect :: string where
  "AllowAccess_effect = ''allow''"

definition AllowAccess :: "'c DefaultPolicy \<Rightarrow> bool" where
  "AllowAccess p = (Effect p = AllowAccess_effect)"

definition GetStartDelimiter :: "'c DefaultPolicy \<Rightarrow> char" where
  "GetStartDelimiter p = CHR ''<''"

definition GetEndDelimiter :: "'c DefaultPolicy \<Rightarrow> char" where
  "GetEndDelimiter p = CHR ''>''"

text \<open>
  \<^verbatim>\<open>compiler.CompileRegex\<close> belongs to another repository. It is a parameter of the
  model: given a pattern and the two delimiters it returns an error or a compiled
  expression, and a compiled expression is modelled as its method \<^verbatim>\<open>MatchString\<close>.
\<close>

type_synonym regexp = "string \<Rightarrow> bool"

type_synonym 'e compiler = "string \<Rightarrow> char \<Rightarrow> char \<Rightarrow> 'e + regexp"

section \<open>The decision engine\<close>

text \<open>
  \<^verbatim>\<open>Match\<close>: the pair \<^verbatim>\<open>(bool, error)\<close> is \<open>Inr b\<close> for \<^verbatim>\<open>(b, nil)\<close> and
  \<open>Inl err\<close> for \<^verbatim>\<open>(false, err)\<close>.
\<close>

fun Match :: "'e compiler \<Rightarrow> 'c DefaultPolicy \<Rightarrow> string list \<Rightarrow> string \<Rightarrow> 'e + bool" where
  "Match cr p [] needle = Inr False"
| "Match cr p (h # haystack) needle =
     (case cr h (GetStartDelimiter p) (GetEndDelimiter p) of
        Inl err \<Rightarrow> Inl err
      | Inr reg \<Rightarrow> if reg needle then Inr True else Match cr p haystack needle)"

text \<open>
  The patterns that one call of \<^verbatim>\<open>Match\<close> hands to \<^verbatim>\<open>CompileRegex\<close>, in order: the
  same loop, returning the patterns it visited instead of its result.
\<close>

fun Match_scanned :: "'e compiler \<Rightarrow> 'c DefaultPolicy \<Rightarrow> string list \<Rightarrow> string \<Rightarrow> string list" where
  "Match_scanned cr p [] needle = []"
| "Match_scanned cr p (h # haystack) needle =
     h # (case cr h (GetStartDelimiter p) (GetEndDelimiter p) of
            Inl err \<Rightarrow> []
          | Inr reg \<Rightarrow> if reg needle then [] else Match_scanned cr p haystack needle)"

fun passesConditions_loop :: "'c Conditions \<Rightarrow> 'c Request \<Rightarrow> bool" where
  "passesConditions_loop [] r = True"
| "passesConditions_loop ((name, condition) # cs) r =
     (if \<not> condition r then False else passesConditions_loop cs r)"

definition passesConditions :: "'c DefaultPolicy \<Rightarrow> 'c Request \<Rightarrow> bool" where
  "passesConditions p r = passesConditions_loop (Conditions p) r"

text \<open>
  \<^verbatim>\<open>doPoliciesAllow\<close>: the loop over the policies with the variable \<^verbatim>\<open>allowed\<close> as
  an argument. The result is \<open>None\<close> for \<^verbatim>\<open>nil\<close> (allowed) and \<open>Some err\<close> otherwise.
\<close>

fun doPoliciesAllow_loop ::
  "'e compiler \<Rightarrow> 'c Request \<Rightarrow> 'c DefaultPolicy list \<Rightarrow> bool \<Rightarrow> 'e error option" where
  "doPoliciesAllow_loop cr r [] allowed =
     (if \<not> allowed then Some (Wrapped ErrForbidden) else None)"
| "doPoliciesAllow_loop cr r (p # policies) allowed =
     (case Match cr p (Actions p) (Action r) of
        Inl err \<Rightarrow> Some (Wrapped (External err))
      | Inr pm \<Rightarrow>
          if \<not> pm then doPoliciesAllow_loop cr r policies allowed
          else (case Match cr p (Subjects p) (Subject r) of
            Inl err \<Rightarrow> Some (External err)
          | Inr sm \<Rightarrow>
              if \<not> sm \<and> length (Subjects p) > 0 then doPoliciesAllow_loop cr r policies allowed
              else if Resource r = [] \<and> length (Resources p) = 0 then
                (if \<not> passesConditions p r then doPoliciesAllow_loop cr r policies allowed
                 else if \<not> AllowAccess p then Some (Wrapped ErrForbidden)
                 else doPoliciesAllow_loop cr r policies True)
              else (case Match cr p (Resources p) (Resource r) of
                Inl err \<Rightarrow> Some (Wrapped (External err))
              | Inr rm \<Rightarrow>
                  if \<not> rm then doPoliciesAllow_loop cr r policies allowed
                  else if \<not> passesConditions p r then doPoliciesAllow_loop cr r policies allowed
                  else if \<not> AllowAccess p then Some (Wrapped ErrForbidden)
                  else doPoliciesAllow_loop cr r policies True)))"

definition doPoliciesAllow ::
  "'e compiler \<Rightarrow> 'c Request \<Rightarrow> 'c DefaultPolicy list \<Rightarrow> 'e error option" where
  "doPoliciesAllow cr r policies = doPoliciesAllow_loop cr r policies False"

text \<open>
  \<^verbatim>\<open>IsAllowed\<close>. The Manager is an interface; its method
  \<^verbatim>\<open>FindPoliciesForSubject\<close> is the parameter \<open>fps\<close>.
\<close>

definition IsAllowed ::
  "'e compiler \<Rightarrow> (string \<Rightarrow> 'e + 'c DefaultPolicy list) \<Rightarrow> 'c Request \<Rightarrow> 'e error option" where
  "IsAllowed cr fps r =
     (case fps (Subject r) of
        Inl err \<Rightarrow> Some (Wrapped (External err))
      | Inr policies \<Rightarrow> doPoliciesAllow cr r policies)"

text \<open>
  The patterns that one run of \<^verbatim>\<open>doPoliciesAllow\<close> hands to \<^verbatim>\<open>CompileRegex\<close>, each
  with its policy, in order: the same loop with the same branches, collecting what each
  call of \<^verbatim>\<open>Match\<close> scanned and stopping where the loop returns.
\<close>

fun doPoliciesAllow_scanned ::
  "'e compiler \<Rightarrow> 'c Request \<Rightarrow> 'c DefaultPolicy list \<Rightarrow> ('c DefaultPolicy \<times> string) list" where
  "doPoliciesAllow_scanned cr r [] = []"
| "doPoliciesAllow_scanned cr r (p # policies) =
     map (Pair p) (Match_scanned cr p (Actions p) (Action r)) @
     (case Match cr p (Actions p) (Action r) of
        Inl err \<Rightarrow> []
      | Inr pm \<Rightarrow>
          if \<not> pm then doPoliciesAllow_scanned cr r policies
          else map (Pair p) (Match_scanned cr p (Subjects p) (Subject r)) @
            (case Match cr p (Subjects p) (Subject r) of
              Inl err \<Rightarrow> []
            | Inr sm \<Rightarrow>
                if \<not> sm \<and> length (Subjects p) > 0 then doPoliciesAllow_scanned cr r policies
                else if Resource r = [] \<and> length (Resources p) = 0 then
                  (if \<not> passesConditions p r then doPoliciesAllow_scanned cr r policies
                   else if \<not> AllowAccess p then []
                   else doPoliciesAllow_scanned cr r policies)
                else map (Pair p) (Match_scanned cr p (Resources p) (Resource r)) @
                  (case Match cr p (Resources p) (Resource r) of
                    Inl err \<Rightarrow> []
                  | Inr rm \<Rightarrow>
                      if \<not> rm then doPoliciesAllow_scanned cr r policies
                      else if \<not> passesConditions p r then doPoliciesAllow_scanned cr r policies
                      else if \<not> AllowAccess p then []
                      else doPoliciesAllow_scanned cr r policies)))"

subsection \<open>The older engine\<close>

text \<open>
  The sources hold a second, older \<^verbatim>\<open>doPoliciesAllow\<close>: it checks the resource first
  and has no special case for a request without a resource. Its \<^verbatim>\<open>HasAccess\<close> is the
  method that the interface now calls \<^verbatim>\<open>AllowAccess\<close>.
\<close>

fun doPoliciesAllow_legacy_loop ::
  "'e compiler \<Rightarrow> 'c Request \<Rightarrow> 'c DefaultPolicy list \<Rightarrow> bool \<Rightarrow> 'e error option" where
  "doPoliciesAllow_legacy_loop cr r [] allowed =
     (if \<not> allowed then Some (Wrapped ErrForbidden) else None)"
| "doPoliciesAllow_legacy_loop cr r (p # policies) allowed =
     (case Match cr p (Resources p) (Resource r) of
        Inl err \<Rightarrow> Some (Wrapped (External err))
      | Inr rm \<Rightarrow>
          if \<not> rm then doPoliciesAllow_legacy_loop cr r policies allowed
          else (case Match cr p (Actions p) (Action r) of
            Inl err \<Rightarrow> Some (Wrapped (External err))
          | Inr pm \<Rightarrow>
              if \<not> pm then doPoliciesAllow_legacy_loop cr r policies allowed
              else (case Match cr p (Subjects p) (Subject r) of
                Inl err \<Rightarrow> Some (External err)
              | Inr sm \<Rightarrow>
                  if \<not> sm \<and> length (Subjects p) > 0
                  then doPoliciesAllow_legacy_loop cr r policies allowed
                  else if \<not> passesConditions p r
                  then doPoliciesAllow_legacy_loop cr r policies allowed
                  else if \<not> AllowAccess p then Some (Wrapped ErrForbidden)
                  else doPoliciesAllow_legacy_loop cr r policies True)))"

definition doPoliciesAllow_legacy ::
  "'e compiler \<Rightarrow> 'c Request \<Rightarrow> 'c DefaultPolicy list \<Rightarrow> 'e error option" where
  "doPoliciesAllow_legacy cr r policies = doPoliciesAllow_legacy_loop cr r policies False"

definition IsAllowed_legacy ::
  "'e compiler \<Rightarrow> (string \<Rightarrow> 'e + 'c DefaultPolicy list) \<Rightarrow> 'c Request \<Rightarrow> 'e error option" where
  "IsAllowed_legacy cr fps r =
     (case fps (Subject r) of
        Inl err \<Rightarrow> Some (Wrapped (External err))
      | Inr policies \<Rightarrow> doPoliciesAllow_legacy cr r policies)"

subsection \<open>What the claims call a matching policy\<close>

text \<open>
  At least one pattern of the list compiles to an expression that matches the string.
\<close>

definition some_pattern_matches ::
  "'e compiler \<Rightarrow> 'c DefaultPolicy \<Rightarrow> string list \<Rightarrow> string \<Rightarrow> bool" where
  "some_pattern_matches cr p hs s =
     (\<exists>h\<in>set hs. case cr h (GetStartDelimiter p) (GetEndDelimiter p) of
                    Inl err \<Rightarrow> False
                  | Inr reg \<Rightarrow> reg s)"

text \<open>
  The specification speaks of a policy that matches a request on action, subject,
  resource and conditions: some action pattern matches the action; the subject list is
  empty or some subject pattern matches the subject; the request names no resource and
  the policy declares none, or some resource pattern matches the resource; every
  condition is fulfilled. Two readings of it are kept apart.

  \<open>policy_pattern_matches\<close> takes the words as they stand: a list of patterns matches
  when at least one of its patterns matches, whatever the other patterns of the list do.
  In the older engine the resource part is that some resource pattern matches.
\<close>

definition policy_pattern_matches ::
  "'e compiler \<Rightarrow> 'c Request \<Rightarrow> 'c DefaultPolicy \<Rightarrow> bool" where
  "policy_pattern_matches cr r p =
     (some_pattern_matches cr p (Actions p) (Action r) \<and>
      (Subjects p = [] \<or> some_pattern_matches cr p (Subjects p) (Subject r)) \<and>
      ((Resource r = [] \<and> Resources p = []) \<or>
       some_pattern_matches cr p (Resources p) (Resource r)) \<and>
      passesConditions p r)"

definition policy_pattern_matches_legacy ::
  "'e compiler \<Rightarrow> 'c Request \<Rightarrow> 'c DefaultPolicy \<Rightarrow> bool" where
  "policy_pattern_matches_legacy cr r p =
     (some_pattern_matches cr p (Resources p) (Resource r) \<and>
      some_pattern_matches cr p (Actions p) (Action r) \<and>
      (Subjects p = [] \<or> some_pattern_matches cr p (Subjects p) (Subject r)) \<and>
      passesConditions p r)"

text \<open>
  \<open>policy_matches\<close> is what the engine establishes: a list of patterns matches when
  \<^verbatim>\<open>Match\<close> returns true on it, which also asks the patterns listed before the matching
  one to compile. It implies \<open>policy_pattern_matches\<close>, and the two agree on a policy
  whose patterns all compile.
\<close>

definition action_matches :: "'e compiler \<Rightarrow> 'c Request \<Rightarrow> 'c DefaultPolicy \<Rightarrow> bool" where
  "action_matches cr r p = (Match cr p (Actions p) (Action r) = Inr True)"

definition subject_matches :: "'e compiler \<Rightarrow> 'c Request \<Rightarrow> 'c DefaultPolicy \<Rightarrow> bool" where
  "subject_matches cr r p = (Subjects p = [] \<or> Match cr p (Subjects p) (Subject r) = Inr True)"

definition resource_matches :: "'e compiler \<Rightarrow> 'c Request \<Rightarrow> 'c DefaultPolicy \<Rightarrow> bool" where
  "resource_matches cr r p =
     ((Resource r = [] \<and> Resources p = []) \<or> Match cr p (Resources p) (Resource r) = Inr True)"

definition policy_matches :: "'e compiler \<Rightarrow> 'c Request \<Rightarrow> 'c DefaultPolicy \<Rightarrow> bool" where
  "policy_matches cr r p =
     (action_matches cr r p \<and> subject_matches cr r p \<and> resource_matches cr r p \<and>
      passesConditions p r)"

text \<open>
  In the older engine a policy matches on the resource only when some resource pattern
  matches it.
\<close>

definition policy_matches_legacy ::
  "'e compiler \<Rightarrow> 'c Request \<Rightarrow> 'c DefaultPolicy \<Rightarrow> bool" where
  "policy_matches_legacy cr r p =
     (Match cr p (Resources p) (Resource r) = Inr True \<and> action_matches cr r p \<and>
      subject_matches cr r p \<and> passesConditions p r)"

text \<open>Every pattern of the policy compiles.\<close>

definition compiles :: "'e compiler \<Rightarrow> 'c DefaultPolicy \<Rightarrow> bool" where
  "compiles cr p =
     (\<forall>h\<in>set (Actions p @ Subjects p @ Resources p).
        \<not> isl (cr h (GetStartDelimiter p) (GetEndDelimiter p)))"

text \<open>
  The result is an error of a collaborator, passed on as it is or wrapped once: neither
  the allowed result \<open>None\<close> nor the denied result \<open>Some (Wrapped ErrForbidden)\<close>.
\<close>

fun internal_error :: "'e error option \<Rightarrow> bool" where
  "internal_error (Some (External err)) = True"
| "internal_error (Some (Wrapped (External err))) = True"
| "internal_error res = False"

section \<open>The Redis manager\<close>

text \<open>
  \<^verbatim>\<open>RedisManager\<close> and its method \<^verbatim>\<open>Create\<close>. The Redis client and the JSON encoder
  are collaborators: \<open>hsetnx\<close> is \<^verbatim>\<open>HSetNX(key, field, value).Result()\<close>, run against a
  store state and returning the flag, the error (\<open>None\<close> for \<^verbatim>\<open>nil\<close>) and the new state;
  \<open>marshal\<close> is \<^verbatim>\<open>json.Marshal\<close>.
\<close>

record RedisManager =
  keyPrefix :: string

definition redisPolicies :: string where
  "redisPolicies = ''ladon:policies''"

definition redisPoliciesKey :: "RedisManager \<Rightarrow> string" where
  "redisPoliciesKey m = keyPrefix m @ redisPolicies"

definition GetID :: "'c DefaultPolicy \<Rightarrow> string" where
  "GetID p = ID p"

definition Create ::
  "('c DefaultPolicy \<Rightarrow> 'e + string) \<Rightarrow>
   (string \<Rightarrow> string \<Rightarrow> string \<Rightarrow> 'db \<Rightarrow> (bool \<times> 'e option) \<times> 'db) \<Rightarrow>
   RedisManager \<Rightarrow> 'c DefaultPolicy \<Rightarrow> 'db \<Rightarrow> 'e error option \<times> 'db" where
  "Create marshal hsetnx m policy db =
     (case marshal policy of
        Inl err \<Rightarrow> (Some (External err), db)
      | Inr payload \<Rightarrow>
          (case hsetnx (redisPoliciesKey m) (GetID policy) payload db of
             ((wasKeySet, err), db') \<Rightarrow>
               if \<not> wasKeySet then (Some (ErrorString ''Policy exists''), db')
               else (case err of
                       Some e \<Rightarrow> (Some (External e), db')
                     | None \<Rightarrow> (None, db'))))"

section \<open>Concrete inputs\<close>

text \<open>
  A stand-in for \<^verbatim>\<open>CompileRegex\<close>, used to run the model on concrete inputs. It covers
  three shapes of pattern: the single fragment \<^verbatim>\<open><.*>\<close>, which matches every string
  without a line feed; a pattern that holds a delimiter in any other way, which it rejects
  (as \<^verbatim>\<open>CompileRegex\<close> rejects the unbalanced pattern \<^verbatim>\<open><\<close>); and a pattern without
  delimiters, which matches exactly itself.
\<close>

definition sample_compiler :: "string compiler" where
  "sample_compiler h sd ed =
     (if h = [sd, CHR ''.'', CHR ''*'', ed] then Inr (\<lambda>s. CHR 0x0A \<notin> set s)
      else if sd \<in> set h \<or> ed \<in> set h then Inl ''Unbalanced braces''
      else Inr (\<lambda>s. s = h))"

text \<open>The policy of the first two scenarios of the specification, for the subject peter.\<close>

definition peter_policy :: "unit DefaultPolicy" where
  "peter_policy =
     \<lparr>ID = ''1'', Description = [], Subjects = [''peter''], Effect = ''allow'',
      Resources = [], Actions = [''<.*>''], Conditions = []\<rparr>"

text \<open>
  Two more policies for peter: one whose only action pattern is the unbalanced \<^verbatim>\<open><\<close>,
  and one that denies every action.
\<close>

definition broken_policy :: "unit DefaultPolicy" where
  "broken_policy = peter_policy\<lparr>ID := ''2'', Actions := [''<'']\<rparr>"

definition deny_policy :: "unit DefaultPolicy" where
  "deny_policy = peter_policy\<lparr>ID := ''3'', Effect := ''deny''\<rparr>"

definition peter_request :: "unit Request" where
  "peter_request = \<lparr>Resource = [], Action = ''delete'', Subject = ''peter'', Context = ()\<rparr>"

section \<open>Matching a list of patterns\<close>

lemma Match_skip_prefix:
  assumes "\<forall>x\<in>set xs. \<exists>reg. cr x (GetStartDelimiter p) (GetEndDelimiter p) = Inr reg \<and> \<not> reg s"
  shows "Match cr p (xs @ ys) s = Match cr p ys s"
  using assms by (induction xs) auto

lemma Match_scanned_skip_prefix:
  assumes "\<forall>x\<in>set xs. \<exists>reg. cr x (GetStartDelimiter p) (GetEndDelimiter p) = Inr reg \<and> \<not> reg s"
  shows "Match_scanned cr p (xs @ ys) s = xs @ Match_scanned cr p ys s"
  using assms by (induction xs) auto

lemma Match_True_pattern:
  assumes "Match cr p hs s = Inr True"
  shows "\<exists>h\<in>set hs. \<exists>reg. cr h (GetStartDelimiter p) (GetEndDelimiter p) = Inr reg \<and> reg s"
  using assms by (induction hs) (auto split: sum.splits if_splits)

lemma Match_scanned_failure:
  assumes "h \<in> set (Match_scanned cr p hs s)"
    and "cr h (GetStartDelimiter p) (GetEndDelimiter p) = Inl err"
  shows "Match cr p hs s = Inl err"
  using assms by (induction hs) (auto split: sum.splits if_splits)

lemma Match_True_some_pattern:
  assumes "Match cr p hs s = Inr True"
  shows "some_pattern_matches cr p hs s"
  using Match_True_pattern [OF assms] by (force simp: some_pattern_matches_def)

lemma no_pattern_Match:
  assumes "\<not> some_pattern_matches cr p hs s"
  shows "Match cr p hs s = Inr False \<or> (\<exists>err. Match cr p hs s = Inl err)"
proof (cases "Match cr p hs s")
  case (Inl err)
  then show ?thesis by simp
next
  case (Inr b)
  then show ?thesis using assms Match_True_some_pattern [of cr p hs s] by (cases b) auto
qed

lemma Match_False_no_pattern:
  assumes "Match cr p hs s = Inr False"
  shows "\<not> some_pattern_matches cr p hs s"
  using assms
  by (induction hs) (auto simp: some_pattern_matches_def split: sum.splits if_splits)

lemma some_pattern_Match:
  assumes "some_pattern_matches cr p hs s"
  shows "Match cr p hs s = Inr True \<or> (\<exists>err. Match cr p hs s = Inl err)"
proof (cases "Match cr p hs s")
  case (Inl err)
  then show ?thesis by simp
next
  case (Inr b)
  then show ?thesis using assms Match_False_no_pattern [of cr p hs s] by (cases b) auto
qed

text \<open>
  Claim C7. \<^verbatim>\<open>Match\<close> scans the list from the left. After a prefix \<open>xs\<close> of patterns
  that compile and do not match the candidate, a pattern \<open>h\<close> that compiles and matches
  makes the result true, and a pattern \<open>h\<close> that fails to compile makes the result that
  compile error; in both cases the patterns handed to the compiler are exactly \<open>xs\<close> and
  \<open>h\<close>, so nothing of the rest \<open>ys\<close> is evaluated, whatever it holds.
\<close>

theorem Match_stops_at_first_match_or_error:
  assumes "\<forall>x\<in>set xs. \<exists>reg. cr x (GetStartDelimiter p) (GetEndDelimiter p) = Inr reg \<and> \<not> reg s"
  shows "(\<forall>reg. cr h (GetStartDelimiter p) (GetEndDelimiter p) = Inr reg \<and> reg s \<longrightarrow>
            Match cr p (xs @ h # ys) s = Inr True \<and>
            Match_scanned cr p (xs @ h # ys) s = xs @ [h])
       \<and> (\<forall>err. cr h (GetStartDelimiter p) (GetEndDelimiter p) = Inl err \<longrightarrow>
            Match cr p (xs @ h # ys) s = Inl err \<and>
            Match_scanned cr p (xs @ h # ys) s = xs @ [h])"
  using assms by (simp add: Match_skip_prefix Match_scanned_skip_prefix)

theorem Match_stops_at_first_match_or_error_witness:
  "Match sample_compiler peter_policy [''view'', ''delete'', ''<''] ''delete'' = Inr True
   \<and> Match_scanned sample_compiler peter_policy [''view'', ''delete'', ''<''] ''delete''
       = [''view'', ''delete'']
   \<and> Match sample_compiler peter_policy [''view'', ''<'', ''delete''] ''delete''
       = Inl ''Unbalanced braces''
   \<and> Match_scanned sample_compiler peter_policy [''view'', ''<'', ''delete''] ''delete''
       = [''view'', ''<'']"
  using Match_stops_at_first_match_or_error
          [of "[''view'']" sample_compiler peter_policy "''delete''" "''delete''" "[''<'']"]
        Match_stops_at_first_match_or_error
          [of "[''view'']" sample_compiler peter_policy "''delete''" "''<''" "[''delete'']"]
  by (simp add: sample_compiler_def GetStartDelimiter_def GetEndDelimiter_def)

section \<open>Conditions\<close>

lemma passesConditions_loop_iff:
  "passesConditions_loop cs r \<longleftrightarrow> (\<forall>(name, condition)\<in>set cs. condition r)"
  by (induction cs) (auto split: if_splits)

text \<open>
  Claim C8. A policy passes the condition check exactly when each of its conditions is
  fulfilled by the request; with no conditions it passes; and the outcome depends only on
  which conditions are attached, not on the order in which the loop visits them: two
  policies with the same set of named conditions pass together. The check returns a
  truth value and nothing else, so it cannot raise an error.
\<close>

theorem passesConditions_is_conjunction:
  "(passesConditions p r \<longleftrightarrow> (\<forall>(name, condition)\<in>set (Conditions p). condition r))
   \<and> (Conditions p = [] \<longrightarrow> passesConditions p r)
   \<and> (set (Conditions q) = set (Conditions p) \<longrightarrow> passesConditions q r = passesConditions p r)"
  by (simp add: passesConditions_def passesConditions_loop_iff)

theorem passesConditions_is_conjunction_witness:
  "passesConditions
     (peter_policy\<lparr>Conditions := [(''owner'', \<lambda>r. Subject r = ''peter''),
                                  (''scoped'', \<lambda>r. Resource r = [])]\<rparr>) peter_request
   \<and> passesConditions peter_policy peter_request
   \<and> passesConditions
       (peter_policy\<lparr>Conditions := [(''scoped'', \<lambda>r. Resource r = []),
                                    (''owner'', \<lambda>r. Subject r = ''peter'')]\<rparr>) peter_request"
  using passesConditions_is_conjunction
          [of "peter_policy\<lparr>Conditions := [(''owner'', \<lambda>r. Subject r = ''peter''),
                                           (''scoped'', \<lambda>r. Resource r = [])]\<rparr>"
              peter_request
              "peter_policy\<lparr>Conditions := [(''scoped'', \<lambda>r. Resource r = []),
                                           (''owner'', \<lambda>r. Subject r = ''peter'')]\<rparr>"]
        passesConditions_is_conjunction [of peter_policy peter_request peter_policy]
  by (simp add: peter_policy_def peter_request_def insert_commute)

section \<open>One policy in the loop\<close>

lemma Match_compiles:
  assumes "\<forall>h\<in>set hs. \<not> isl (cr h (GetStartDelimiter p) (GetEndDelimiter p))"
  shows "Match cr p hs s = Inr True \<or> Match cr p hs s = Inr False"
  using assms by (induction hs) (auto split: sum.splits)

lemma loop_policy_matches:
  assumes "policy_matches cr r p"
  shows "doPoliciesAllow_loop cr r (p # ps) a =
           (if AllowAccess p then doPoliciesAllow_loop cr r ps True
            else Some (Wrapped ErrForbidden))"
  using assms
  by (auto simp: policy_matches_def action_matches_def subject_matches_def
        resource_matches_def)

lemma loop_policy_skipped:
  assumes "compiles cr p" and "\<not> policy_matches cr r p"
  shows "doPoliciesAllow_loop cr r (p # ps) a = doPoliciesAllow_loop cr r ps a"
proof -
  have a: "Match cr p (Actions p) (Action r) = Inr True \<or>
           Match cr p (Actions p) (Action r) = Inr False"
    using assms(1) by (intro Match_compiles) (simp add: compiles_def)
  have s: "Match cr p (Subjects p) (Subject r) = Inr True \<or>
           Match cr p (Subjects p) (Subject r) = Inr False"
    using assms(1) by (intro Match_compiles) (simp add: compiles_def)
  have t: "Match cr p (Resources p) (Resource r) = Inr True \<or>
           Match cr p (Resources p) (Resource r) = Inr False"
    using assms(1) by (intro Match_compiles) (simp add: compiles_def)
  from a s t assms(2) show ?thesis
    by (auto simp: policy_matches_def action_matches_def subject_matches_def
          resource_matches_def)
qed

lemma loop_policy_cases:
  "policy_matches cr r p
   \<or> doPoliciesAllow_loop cr r (p # ps) a = doPoliciesAllow_loop cr r ps a
   \<or> internal_error (doPoliciesAllow_loop cr r (p # ps) a)"
  by (auto simp: policy_matches_def action_matches_def subject_matches_def
        resource_matches_def split: sum.splits)

lemma policy_matches_pattern_matches:
  assumes "policy_matches cr r p"
  shows "policy_pattern_matches cr r p"
  using assms
  by (auto simp: policy_matches_def policy_pattern_matches_def action_matches_def
        subject_matches_def resource_matches_def Match_True_some_pattern)

lemma pattern_matches_compiles:
  assumes "compiles cr p" and "policy_pattern_matches cr r p"
  shows "policy_matches cr r p"
proof -
  have a: "Match cr p (Actions p) (Action r) = Inr True \<or>
           Match cr p (Actions p) (Action r) = Inr False"
    using assms(1) by (intro Match_compiles) (simp add: compiles_def)
  have s: "Match cr p (Subjects p) (Subject r) = Inr True \<or>
           Match cr p (Subjects p) (Subject r) = Inr False"
    using assms(1) by (intro Match_compiles) (simp add: compiles_def)
  have t: "Match cr p (Resources p) (Resource r) = Inr True \<or>
           Match cr p (Resources p) (Resource r) = Inr False"
    using assms(1) by (intro Match_compiles) (simp add: compiles_def)
  from a s t assms(2) show ?thesis
    by (auto simp: policy_matches_def policy_pattern_matches_def action_matches_def
          subject_matches_def resource_matches_def dest: Match_False_no_pattern)
qed

lemma loop_pattern_matches_cases:
  assumes "policy_pattern_matches cr r p"
  shows "policy_matches cr r p \<or> internal_error (doPoliciesAllow_loop cr r (p # ps) a)"
proof -
  have a: "Match cr p (Actions p) (Action r) = Inr True \<or>
           (\<exists>err. Match cr p (Actions p) (Action r) = Inl err)"
    using assms by (intro some_pattern_Match) (simp add: policy_pattern_matches_def)
  have s: "Subjects p = [] \<or> Match cr p (Subjects p) (Subject r) = Inr True \<or>
           (\<exists>err. Match cr p (Subjects p) (Subject r) = Inl err)"
    using assms some_pattern_Match [of cr p "Subjects p" "Subject r"]
    by (auto simp: policy_pattern_matches_def)
  have t: "(Resource r = [] \<and> Resources p = []) \<or>
           Match cr p (Resources p) (Resource r) = Inr True \<or>
           (\<exists>err. Match cr p (Resources p) (Resource r) = Inl err)"
    using assms some_pattern_Match [of cr p "Resources p" "Resource r"]
    by (auto simp: policy_pattern_matches_def)
  have c: "passesConditions p r"
    using assms by (simp add: policy_pattern_matches_def)
  from a s t c show ?thesis
    by (auto simp: policy_matches_def action_matches_def subject_matches_def
          resource_matches_def)
qed

section \<open>The whole loop\<close>

text \<open>From here on a step of the loop is taken through the three lemmas above.\<close>

declare doPoliciesAllow_loop.simps(2) [simp del]

lemma loop_compiles_no_internal_error:
  assumes "\<forall>p\<in>set P. compiles cr p"
  shows "\<not> internal_error (doPoliciesAllow_loop cr r P a)"
  using assms
proof (induction P arbitrary: a)
  case Nil
  then show ?case by simp
next
  case (Cons p P)
  show ?case
  proof (cases "policy_matches cr r p")
    case True
    then show ?thesis using Cons by (simp add: loop_policy_matches)
  next
    case False
    then show ?thesis using Cons by (simp add: loop_policy_skipped)
  qed
qed

lemma loop_deny_after_prefix:
  assumes "\<forall>p\<in>set xs. compiles cr p" and "policy_matches cr r d" and "\<not> AllowAccess d"
  shows "doPoliciesAllow_loop cr r (xs @ d # ys) a = Some (Wrapped ErrForbidden)"
  using assms(1)
proof (induction xs arbitrary: a)
  case Nil
  then show ?case using assms(2,3) by (simp add: loop_policy_matches)
next
  case (Cons p xs)
  show ?case
  proof (cases "policy_matches cr r p")
    case True
    then show ?thesis using Cons by (simp add: loop_policy_matches)
  next
    case False
    then show ?thesis using Cons by (simp add: loop_policy_skipped)
  qed
qed

lemma loop_without_deny:
  assumes "\<forall>p\<in>set P. policy_matches cr r p \<longrightarrow> AllowAccess p"
  shows "internal_error (doPoliciesAllow_loop cr r P a)
         \<or> doPoliciesAllow_loop cr r P a =
             (if a \<or> (\<exists>p\<in>set P. policy_matches cr r p) then None
              else Some (Wrapped ErrForbidden))"
  using assms
proof (induction P arbitrary: a)
  case Nil
  then show ?case by simp
next
  case (Cons p P)
  then have rest: "\<forall>q\<in>set P. policy_matches cr r q \<longrightarrow> AllowAccess q" by simp
  show ?case
  proof (cases "policy_matches cr r p")
    case True
    then have "AllowAccess p" using Cons.prems by simp
    then have "doPoliciesAllow_loop cr r (p # P) a = doPoliciesAllow_loop cr r P True"
      using True by (simp add: loop_policy_matches)
    then show ?thesis using Cons.IH [OF rest, of True] True by auto
  next
    case False
    from loop_policy_cases [of cr r p P a] False Cons.IH [OF rest, of a]
    show ?thesis by (auto split: if_splits)
  qed
qed

lemma loop_pattern_deny_or_internal_error:
  assumes "d \<in> set P" and "policy_pattern_matches cr r d" and "\<not> AllowAccess d"
  shows "doPoliciesAllow_loop cr r P a = Some (Wrapped ErrForbidden)
         \<or> internal_error (doPoliciesAllow_loop cr r P a)"
  using assms(1)
proof (induction P arbitrary: a)
  case Nil
  then show ?case by simp
next
  case (Cons p P)
  show ?case
  proof (cases "policy_matches cr r p")
    case True
    then have step: "doPoliciesAllow_loop cr r (p # P) a =
        (if AllowAccess p then doPoliciesAllow_loop cr r P True
         else Some (Wrapped ErrForbidden))"
      by (rule loop_policy_matches)
    show ?thesis
    proof (cases "AllowAccess p")
      case True
      then have "d \<in> set P" using Cons.prems assms(3) by auto
      then show ?thesis using Cons.IH [of True] step True by simp
    next
      case False
      then show ?thesis using step by simp
    qed
  next
    case nm: False
    show ?thesis
    proof (cases "p = d")
      case True
      then show ?thesis using loop_pattern_matches_cases [OF assms(2), of P a] nm by simp
    next
      case False
      then have "d \<in> set P" using Cons.prems by auto
      then have ih: "doPoliciesAllow_loop cr r P a = Some (Wrapped ErrForbidden)
                     \<or> internal_error (doPoliciesAllow_loop cr r P a)"
        by (rule Cons.IH)
      from loop_policy_cases [of cr r p P a] nm ih show ?thesis by auto
    qed
  qed
qed

lemma loop_without_deny_pattern:
  assumes "\<forall>p\<in>set P. policy_matches cr r p \<longrightarrow> AllowAccess p"
    and "a \<or> (\<exists>p\<in>set P. policy_pattern_matches cr r p)"
  shows "internal_error (doPoliciesAllow_loop cr r P a)
         \<or> doPoliciesAllow_loop cr r P a = None"
  using assms
proof (induction P arbitrary: a)
  case Nil
  then show ?case by simp
next
  case (Cons p P)
  then have rest: "\<forall>q\<in>set P. policy_matches cr r q \<longrightarrow> AllowAccess q" by simp
  show ?case
  proof (cases "policy_matches cr r p")
    case True
    then have "AllowAccess p" using Cons.prems by simp
    then have "doPoliciesAllow_loop cr r (p # P) a = doPoliciesAllow_loop cr r P True"
      using True by (simp add: loop_policy_matches)
    then show ?thesis using Cons.IH [OF rest, of True] by simp
  next
    case nm: False
    show ?thesis
    proof (cases "policy_pattern_matches cr r p")
      case True
      then show ?thesis using loop_pattern_matches_cases [of cr r p P a] nm by simp
    next
      case False
      then have "a \<or> (\<exists>q\<in>set P. policy_pattern_matches cr r q)"
        using Cons.prems(2) by auto
      from Cons.IH [OF rest this] loop_policy_cases [of cr r p P a] nm
      show ?thesis by auto
    qed
  qed
qed

subsection \<open>The older loop\<close>

lemma legacy_policy_matches:
  assumes "policy_matches_legacy cr r p"
  shows "doPoliciesAllow_legacy_loop cr r (p # ps) a =
           (if AllowAccess p then doPoliciesAllow_legacy_loop cr r ps True
            else Some (Wrapped ErrForbidden))"
  using assms
  by (auto simp: policy_matches_legacy_def action_matches_def subject_matches_def)

lemma legacy_policy_skipped:
  assumes "compiles cr p" and "\<not> policy_matches_legacy cr r p"
  shows "doPoliciesAllow_legacy_loop cr r (p # ps) a = doPoliciesAllow_legacy_loop cr r ps a"
proof -
  have a: "Match cr p (Actions p) (Action r) = Inr True \<or>
           Match cr p (Actions p) (Action r) = Inr False"
    using assms(1) by (intro Match_compiles) (simp add: compiles_def)
  have s: "Match cr p (Subjects p) (Subject r) = Inr True \<or>
           Match cr p (Subjects p) (Subject r) = Inr False"
    using assms(1) by (intro Match_compiles) (simp add: compiles_def)
  have t: "Match cr p (Resources p) (Resource r) = Inr True \<or>
           Match cr p (Resources p) (Resource r) = Inr False"
    using assms(1) by (intro Match_compiles) (simp add: compiles_def)
  from a s t assms(2) show ?thesis
    by (auto simp: policy_matches_legacy_def action_matches_def subject_matches_def)
qed

lemma legacy_policy_cases:
  "policy_matches_legacy cr r p
   \<or> doPoliciesAllow_legacy_loop cr r (p # ps) a = doPoliciesAllow_legacy_loop cr r ps a
   \<or> internal_error (doPoliciesAllow_legacy_loop cr r (p # ps) a)"
  by (auto simp: policy_matches_legacy_def action_matches_def subject_matches_def
        split: sum.splits)

lemma legacy_pattern_matches_compiles:
  assumes "compiles cr p" and "policy_pattern_matches_legacy cr r p"
  shows "policy_matches_legacy cr r p"
proof -
  have a: "Match cr p (Actions p) (Action r) = Inr True \<or>
           Match cr p (Actions p) (Action r) = Inr False"
    using assms(1) by (intro Match_compiles) (simp add: compiles_def)
  have s: "Match cr p (Subjects p) (Subject r) = Inr True \<or>
           Match cr p (Subjects p) (Subject r) = Inr False"
    using assms(1) by (intro Match_compiles) (simp add: compiles_def)
  have t: "Match cr p (Resources p) (Resource r) = Inr True \<or>
           Match cr p (Resources p) (Resource r) = Inr False"
    using assms(1) by (intro Match_compiles) (simp add: compiles_def)
  from a s t assms(2) show ?thesis
    by (auto simp: policy_matches_legacy_def policy_pattern_matches_legacy_def
          action_matches_def subject_matches_def dest: Match_False_no_pattern)
qed

lemma legacy_pattern_matches_cases:
  assumes "policy_pattern_matches_legacy cr r p"
  shows "policy_matches_legacy cr r p \<or>
         internal_error (doPoliciesAllow_legacy_loop cr r (p # ps) a)"
proof -
  have a: "Match cr p (Actions p) (Action r) = Inr True \<or>
           (\<exists>err. Match cr p (Actions p) (Action r) = Inl err)"
    using assms by (intro some_pattern_Match) (simp add: policy_pattern_matches_legacy_def)
  have s: "Subjects p = [] \<or> Match cr p (Subjects p) (Subject r) = Inr True \<or>
           (\<exists>err. Match cr p (Subjects p) (Subject r) = Inl err)"
    using assms some_pattern_Match [of cr p "Subjects p" "Subject r"]
    by (auto simp: policy_pattern_matches_legacy_def)
  have t: "Match cr p (Resources p) (Resource r) = Inr True \<or>
           (\<exists>err. Match cr p (Resources p) (Resource r) = Inl err)"
    using assms by (intro some_pattern_Match) (simp add: policy_pattern_matches_legacy_def)
  have c: "passesConditions p r"
    using assms by (simp add: policy_pattern_matches_legacy_def)
  from a s t c show ?thesis
    by (auto simp: policy_matches_legacy_def action_matches_def subject_matches_def)
qed

declare doPoliciesAllow_legacy_loop.simps(2) [simp del]

lemma legacy_deny_after_prefix:
  assumes "\<forall>p\<in>set xs. compiles cr p" and "policy_matches_legacy cr r d"
    and "\<not> AllowAccess d"
  shows "doPoliciesAllow_legacy_loop cr r (xs @ d # ys) a = Some (Wrapped ErrForbidden)"
  using assms(1)
proof (induction xs arbitrary: a)
  case Nil
  then show ?case using assms(2,3)
    by (simp add: legacy_policy_matches)
next
  case (Cons p xs)
  show ?case
  proof (cases "policy_matches_legacy cr r p")
    case True
    then show ?thesis using Cons
      by (simp add: legacy_policy_matches)
  next
    case False
    then show ?thesis using Cons
      by (simp add: legacy_policy_skipped)
  qed
qed

lemma legacy_pattern_deny_or_internal_error:
  assumes "d \<in> set P" and "policy_pattern_matches_legacy cr r d" and "\<not> AllowAccess d"
  shows "doPoliciesAllow_legacy_loop cr r P a = Some (Wrapped ErrForbidden)
         \<or> internal_error (doPoliciesAllow_legacy_loop cr r P a)"
  using assms(1)
proof (induction P arbitrary: a)
  case Nil
  then show ?case by simp
next
  case (Cons p P)
  show ?case
  proof (cases "policy_matches_legacy cr r p")
    case True
    then have step: "doPoliciesAllow_legacy_loop cr r (p # P) a =
        (if AllowAccess p then doPoliciesAllow_legacy_loop cr r P True
         else Some (Wrapped ErrForbidden))"
      by (rule legacy_policy_matches)
    show ?thesis
    proof (cases "AllowAccess p")
      case True
      then have "d \<in> set P" using Cons.prems assms(3) by auto
      then show ?thesis using Cons.IH [of True] step True by simp
    next
      case False
      then show ?thesis using step by simp
    qed
  next
    case nm: False
    show ?thesis
    proof (cases "p = d")
      case True
      then show ?thesis using legacy_pattern_matches_cases [OF assms(2), of P a] nm by simp
    next
      case False
      then have "d \<in> set P" using Cons.prems by auto
      then have ih: "doPoliciesAllow_legacy_loop cr r P a = Some (Wrapped ErrForbidden)
                     \<or> internal_error (doPoliciesAllow_legacy_loop cr r P a)"
        by (rule Cons.IH)
      from legacy_policy_cases [of cr r p P a] nm ih show ?thesis by auto
    qed
  qed
qed

subsection \<open>The patterns handed to the compiler\<close>

lemma loop_scanned_failure:
  "(p, h) \<in> set (doPoliciesAllow_scanned cr r P) \<Longrightarrow>
   cr h (GetStartDelimiter p) (GetEndDelimiter p) = Inl err \<Longrightarrow>
   doPoliciesAllow_loop cr r P a = Some (External err)
         \<or> doPoliciesAllow_loop cr r P a = Some (Wrapped (External err))"
proof (induction P arbitrary: a)
  case Nil
  then show ?case by simp
next
  case (Cons q P)
  note ih = Cons.IH [OF _ Cons.prems(2)]
  note mem = Cons.prems(1)
  have f: "Match cr q hs s = Inl err" if "h \<in> set (Match_scanned cr q hs s)" for hs s
    using that Cons.prems(2) Match_scanned_failure [of h cr q hs s err]
    by (simp add: GetStartDelimiter_def GetEndDelimiter_def)
  note fA = f [of "Actions q" "Action r"]
  note fS = f [of "Subjects q" "Subject r"]
  note fR = f [of "Resources q" "Resource r"]
  show ?case
  proof (cases "Match cr q (Actions q) (Action r)")
    case (Inl e)
    then show ?thesis using mem fA by (auto simp: doPoliciesAllow_loop.simps(2))
  next
    case A: (Inr pm)
    show ?thesis
    proof (cases pm)
      case False
      then show ?thesis using A mem fA ih by (auto simp: doPoliciesAllow_loop.simps(2))
    next
      case pm: True
      show ?thesis
      proof (cases "Match cr q (Subjects q) (Subject r)")
        case (Inl e)
        then show ?thesis using A pm mem fA fS by (auto simp: doPoliciesAllow_loop.simps(2))
      next
        case S: (Inr sm)
        show ?thesis
        proof (cases "\<not> sm \<and> length (Subjects q) > 0")
          case True
          then show ?thesis using A pm S mem fA fS ih
            by (auto simp: doPoliciesAllow_loop.simps(2))
        next
          case sm: False
          show ?thesis
          proof (cases "Resource r = [] \<and> length (Resources q) = 0")
            case True
            then show ?thesis using A pm S sm mem fA fS ih
              by (auto simp: doPoliciesAllow_loop.simps(2) split: if_splits)
          next
            case res: False
            show ?thesis
            proof (cases "Match cr q (Resources q) (Resource r)")
              case (Inl e)
              then show ?thesis using A pm S sm res mem fA fS fR
                by (auto simp: doPoliciesAllow_loop.simps(2))
            next
              case (Inr rm)
              then show ?thesis using A pm S sm res mem fA fS fR ih
                by (auto simp: doPoliciesAllow_loop.simps(2) split: if_splits)
            qed
          qed
        qed
      qed
    qed
  qed
qed

lemma loop_drop_empty_actions:
  assumes "Actions p = []"
  shows "doPoliciesAllow_loop cr r (xs @ p # ys) a = doPoliciesAllow_loop cr r (xs @ ys) a"
  using assms
  by (induction xs arbitrary: a)
    (simp_all add: doPoliciesAllow_loop.simps(2) cong: sum.case_cong if_cong)

lemma legacy_loop_drop_empty_resources:
  assumes "Resources p = []"
  shows "doPoliciesAllow_legacy_loop cr r (xs @ p # ys) a =
         doPoliciesAllow_legacy_loop cr r (xs @ ys) a"
  using assms
  by (induction xs arbitrary: a)
    (simp_all add: doPoliciesAllow_legacy_loop.simps(2) cong: sum.case_cong if_cong)

lemmas run_engine =
  IsAllowed_def doPoliciesAllow_def doPoliciesAllow_loop.simps(2) passesConditions_def
  AllowAccess_def AllowAccess_effect_def GetStartDelimiter_def GetEndDelimiter_def
  sample_compiler_def peter_policy_def broken_policy_def deny_policy_def peter_request_def

lemmas run_legacy =
  IsAllowed_legacy_def doPoliciesAllow_legacy_def doPoliciesAllow_legacy_loop.simps(2)

lemmas run_matches =
  policy_matches_def action_matches_def subject_matches_def resource_matches_def
  compiles_def

lemmas run_pattern_matches =
  policy_pattern_matches_def policy_pattern_matches_legacy_def policy_matches_legacy_def
  some_pattern_matches_def

section \<open>The verdict\<close>

text \<open>
  Claim C1, as stated, fails: the loop returns at the first pattern that does not compile,
  so a policy with such a pattern listed before the matching deny policy turns the result
  into the compile error, and the order of the list matters.
\<close>

theorem deny_behind_broken_policy:
  "policy_matches sample_compiler peter_request deny_policy
   \<and> \<not> AllowAccess deny_policy
   \<and> IsAllowed sample_compiler (\<lambda>subject. Inr [broken_policy, deny_policy]) peter_request
       = Some (Wrapped (External ''Unbalanced braces''))
   \<and> IsAllowed sample_compiler (\<lambda>subject. Inr [deny_policy, broken_policy]) peter_request
       = Some (Wrapped ErrForbidden)"
  by (simp add: run_engine run_matches)

text \<open>
  A deny policy whose first action pattern does not compile and whose second one matches:
  some pattern of each list matches the request, yet the engine stops at the first
  pattern. So the patterns of the deny policy itself must compile as well.
\<close>

lemma deny_with_broken_first_pattern:
  "policy_pattern_matches sample_compiler peter_request
     (deny_policy\<lparr>Actions := [''<'', ''<.*>'']\<rparr>)
   \<and> \<not> policy_matches sample_compiler peter_request
       (deny_policy\<lparr>Actions := [''<'', ''<.*>'']\<rparr>)
   \<and> IsAllowed sample_compiler (\<lambda>subject. Inr [deny_policy\<lparr>Actions := [''<'', ''<.*>'']\<rparr>])
       peter_request = Some (Wrapped (External ''Unbalanced braces''))"
  by (simp add: run_engine run_matches run_pattern_matches)

text \<open>
  Claim C1, amended. When the Manager returns the policies \<open>P\<close> and some policy \<open>d\<close> of
  \<open>P\<close> has the effect deny and matches the request on action, subject, resource and
  conditions, in the sense of \<open>policy_pattern_matches\<close>, \<^verbatim>\<open>IsAllowed\<close> returns the
  denied result or an internal error, never the allowed result; and it returns the denied
  result whenever every pattern of \<open>d\<close> and of every policy listed before \<open>d\<close> compiles,
  however many allow policies match and wherever they stand. For \<open>d\<close> itself it is enough
  that \<^verbatim>\<open>Match\<close> returns true on its lists, that is, that in each list no pattern
  listed before the first matching one fails to compile. The same holds of the older
  engine, with its stricter match on the resource.
\<close>

theorem deny_overrides_allow:
  assumes "fps (Subject r) = Inr P" and "d \<in> set P" and "\<not> AllowAccess d"
  shows "(policy_pattern_matches cr r d \<longrightarrow>
            (IsAllowed cr fps r = Some (Wrapped ErrForbidden) \<or>
             internal_error (IsAllowed cr fps r)) \<and>
            (\<forall>xs ys. P = xs @ d # ys \<and> (\<forall>p\<in>set xs. compiles cr p) \<and> compiles cr d \<longrightarrow>
               IsAllowed cr fps r = Some (Wrapped ErrForbidden)))
       \<and> (policy_matches cr r d \<longrightarrow>
            (\<forall>xs ys. P = xs @ d # ys \<and> (\<forall>p\<in>set xs. compiles cr p) \<longrightarrow>
               IsAllowed cr fps r = Some (Wrapped ErrForbidden)))
       \<and> (policy_pattern_matches_legacy cr r d \<longrightarrow>
            (IsAllowed_legacy cr fps r = Some (Wrapped ErrForbidden) \<or>
             internal_error (IsAllowed_legacy cr fps r)) \<and>
            (\<forall>xs ys. P = xs @ d # ys \<and> (\<forall>p\<in>set xs. compiles cr p) \<and> compiles cr d \<longrightarrow>
               IsAllowed_legacy cr fps r = Some (Wrapped ErrForbidden)))
       \<and> (policy_matches_legacy cr r d \<longrightarrow>
            (\<forall>xs ys. P = xs @ d # ys \<and> (\<forall>p\<in>set xs. compiles cr p) \<longrightarrow>
               IsAllowed_legacy cr fps r = Some (Wrapped ErrForbidden)))"
proof (intro conjI impI)
  assume m: "policy_pattern_matches cr r d"
  show "IsAllowed cr fps r = Some (Wrapped ErrForbidden) \<or> internal_error (IsAllowed cr fps r)"
    using assms m loop_pattern_deny_or_internal_error [of d P cr r False]
    by (simp add: IsAllowed_def doPoliciesAllow_def)
  show "\<forall>xs ys. P = xs @ d # ys \<and> (\<forall>p\<in>set xs. compiles cr p) \<and> compiles cr d \<longrightarrow>
          IsAllowed cr fps r = Some (Wrapped ErrForbidden)"
    using assms m
    by (auto simp: IsAllowed_def doPoliciesAllow_def loop_deny_after_prefix
          pattern_matches_compiles)
next
  assume m: "policy_matches cr r d"
  show "\<forall>xs ys. P = xs @ d # ys \<and> (\<forall>p\<in>set xs. compiles cr p) \<longrightarrow>
          IsAllowed cr fps r = Some (Wrapped ErrForbidden)"
    using assms m by (auto simp: IsAllowed_def doPoliciesAllow_def loop_deny_after_prefix)
next
  assume m: "policy_pattern_matches_legacy cr r d"
  show "IsAllowed_legacy cr fps r = Some (Wrapped ErrForbidden) \<or>
        internal_error (IsAllowed_legacy cr fps r)"
    using assms m legacy_pattern_deny_or_internal_error [of d P cr r False]
    by (simp add: IsAllowed_legacy_def doPoliciesAllow_legacy_def)
  show "\<forall>xs ys. P = xs @ d # ys \<and> (\<forall>p\<in>set xs. compiles cr p) \<and> compiles cr d \<longrightarrow>
          IsAllowed_legacy cr fps r = Some (Wrapped ErrForbidden)"
    using assms m
    by (auto simp: IsAllowed_legacy_def doPoliciesAllow_legacy_def legacy_deny_after_prefix
          legacy_pattern_matches_compiles)
next
  assume m: "policy_matches_legacy cr r d"
  show "\<forall>xs ys. P = xs @ d # ys \<and> (\<forall>p\<in>set xs. compiles cr p) \<longrightarrow>
          IsAllowed_legacy cr fps r = Some (Wrapped ErrForbidden)"
    using assms m
    by (auto simp: IsAllowed_legacy_def doPoliciesAllow_legacy_def legacy_deny_after_prefix)
qed

theorem deny_overrides_allow_witness:
  "IsAllowed sample_compiler (\<lambda>subject. Inr [peter_policy, deny_policy, broken_policy])
     peter_request = Some (Wrapped ErrForbidden)
   \<and> IsAllowed sample_compiler
       (\<lambda>subject. Inr [peter_policy, deny_policy\<lparr>Actions := [''<.*>'', ''<'']\<rparr>])
       peter_request = Some (Wrapped ErrForbidden)
   \<and> IsAllowed_legacy sample_compiler
       (\<lambda>subject. Inr [peter_policy\<lparr>Resources := [''articles'']\<rparr>,
                       deny_policy\<lparr>Resources := [''articles'']\<rparr>, broken_policy])
       (peter_request\<lparr>Resource := ''articles''\<rparr>) = Some (Wrapped ErrForbidden)
   \<and> IsAllowed_legacy sample_compiler
       (\<lambda>subject. Inr [peter_policy\<lparr>Resources := [''articles'']\<rparr>,
                       deny_policy\<lparr>Resources := [''articles''], Actions := [''<.*>'', ''<'']\<rparr>])
       (peter_request\<lparr>Resource := ''articles''\<rparr>) = Some (Wrapped ErrForbidden)"
proof -
  let ?P = "[peter_policy, deny_policy, broken_policy]"
  let ?e = "deny_policy\<lparr>Actions := [''<.*>'', ''<'']\<rparr>"
  let ?P2 = "[peter_policy, ?e]"
  let ?a = "peter_policy\<lparr>Resources := [''articles'']\<rparr>"
  let ?d = "deny_policy\<lparr>Resources := [''articles'']\<rparr>"
  let ?f = "deny_policy\<lparr>Resources := [''articles''], Actions := [''<.*>'', ''<'']\<rparr>"
  let ?Q = "[?a, ?d, broken_policy]"
  let ?Q2 = "[?a, ?f]"
  let ?r = "peter_request\<lparr>Resource := ''articles''\<rparr>"
  have c: "\<forall>p\<in>set [peter_policy]. compiles sample_compiler p"
    by (simp add: run_engine run_matches)
  have c': "\<forall>p\<in>set [?a]. compiles sample_compiler p"
    by (simp add: run_engine run_matches)

  have m: "policy_pattern_matches sample_compiler peter_request deny_policy"
    by (simp add: run_engine run_pattern_matches)
  have d: "\<not> AllowAccess deny_policy"
    by (simp add: run_engine)
  have cd: "compiles sample_compiler deny_policy"
    by (simp add: run_engine run_matches)
  have "\<forall>xs ys. ?P = xs @ deny_policy # ys \<and> (\<forall>p\<in>set xs. compiles sample_compiler p) \<and>
          compiles sample_compiler deny_policy \<longrightarrow>
          IsAllowed sample_compiler (\<lambda>subject. Inr ?P) peter_request = Some (Wrapped ErrForbidden)"
    using deny_overrides_allow [of "\<lambda>subject. Inr ?P" peter_request ?P deny_policy
        sample_compiler, OF _ _ d] m
    by simp
  from this [rule_format, of "[peter_policy]" "[broken_policy]"] c cd
  have one: "IsAllowed sample_compiler (\<lambda>subject. Inr ?P) peter_request
             = Some (Wrapped ErrForbidden)"
    by simp

  have m2: "policy_matches sample_compiler peter_request ?e"
    by (simp add: run_engine run_matches)
  have d2: "\<not> AllowAccess ?e"
    by (simp add: run_engine)
  have "\<forall>xs ys. ?P2 = xs @ ?e # ys \<and> (\<forall>p\<in>set xs. compiles sample_compiler p) \<longrightarrow>
          IsAllowed sample_compiler (\<lambda>subject. Inr ?P2) peter_request
            = Some (Wrapped ErrForbidden)"
    using deny_overrides_allow [of "\<lambda>subject. Inr ?P2" peter_request ?P2 ?e
        sample_compiler, OF _ _ d2] m2
    by simp
  from this [rule_format, of "[peter_policy]" "[]"] c
  have two: "IsAllowed sample_compiler (\<lambda>subject. Inr ?P2) peter_request
             = Some (Wrapped ErrForbidden)"
    by simp

  have m3: "policy_pattern_matches_legacy sample_compiler ?r ?d"
    by (simp add: run_engine run_pattern_matches)
  have d3: "\<not> AllowAccess ?d"
    by (simp add: run_engine)
  have cd3: "compiles sample_compiler ?d"
    by (simp add: run_engine run_matches)
  have "\<forall>xs ys. ?Q = xs @ ?d # ys \<and> (\<forall>p\<in>set xs. compiles sample_compiler p) \<and>
          compiles sample_compiler ?d \<longrightarrow>
          IsAllowed_legacy sample_compiler (\<lambda>subject. Inr ?Q) ?r = Some (Wrapped ErrForbidden)"
    using deny_overrides_allow [of "\<lambda>subject. Inr ?Q" ?r ?Q ?d sample_compiler, OF _ _ d3] m3
    by simp
  from this [rule_format, of "[?a]" "[broken_policy]"] c' cd3
  have three: "IsAllowed_legacy sample_compiler (\<lambda>subject. Inr ?Q) ?r
               = Some (Wrapped ErrForbidden)"
    by simp

  have m4: "policy_matches_legacy sample_compiler ?r ?f"
    by (simp add: run_engine run_matches run_pattern_matches)
  have d4: "\<not> AllowAccess ?f"
    by (simp add: run_engine)
  have "\<forall>xs ys. ?Q2 = xs @ ?f # ys \<and> (\<forall>p\<in>set xs. compiles sample_compiler p) \<longrightarrow>
          IsAllowed_legacy sample_compiler (\<lambda>subject. Inr ?Q2) ?r = Some (Wrapped ErrForbidden)"
    using deny_overrides_allow [of "\<lambda>subject. Inr ?Q2" ?r ?Q2 ?f sample_compiler, OF _ _ d4] m4
    by simp
  from this [rule_format, of "[?a]" "[]"] c'
  have four: "IsAllowed_legacy sample_compiler (\<lambda>subject. Inr ?Q2) ?r
              = Some (Wrapped ErrForbidden)"
    by simp

  from one two three four show ?thesis by simp
qed

text \<open>
  Claim C2, as stated, fails: with a policy whose action pattern does not compile listed
  first, no deny policy matches and an allow policy matches, and the result is the compile
  error.
\<close>

theorem allow_behind_broken_policy:
  "\<not> policy_matches sample_compiler peter_request broken_policy
   \<and> policy_matches sample_compiler peter_request peter_policy
   \<and> AllowAccess peter_policy
   \<and> IsAllowed sample_compiler (\<lambda>subject. Inr [broken_policy, peter_policy]) peter_request
       = Some (Wrapped (External ''Unbalanced braces''))"
  by (simp add: run_engine run_matches)

text \<open>
  Claim C2, amended. When the Manager returns the policies \<open>P\<close>, no policy of \<open>P\<close> with
  the effect deny matches the request and some policy of \<open>P\<close> with the effect allow
  matches it, \<^verbatim>\<open>IsAllowed\<close> returns the allowed result or an internal error, never the
  denied result; and it returns the allowed result whenever every pattern of every policy
  of \<open>P\<close> compiles. Of the deny policies it is enough to ask that none passes the checks
  of the engine, and of the allow policy that some pattern of each of its lists matches:
  these are the weaker readings of the two hypotheses.
\<close>

theorem allow_without_deny:
  assumes "fps (Subject r) = Inr P"
    and "\<forall>p\<in>set P. \<not> AllowAccess p \<longrightarrow> \<not> policy_matches cr r p"
    and "\<exists>p\<in>set P. AllowAccess p \<and> policy_pattern_matches cr r p"
  shows "(IsAllowed cr fps r = None \<or> internal_error (IsAllowed cr fps r))
       \<and> ((\<forall>p\<in>set P. compiles cr p) \<longrightarrow> IsAllowed cr fps r = None)"
proof -
  have "\<forall>p\<in>set P. policy_matches cr r p \<longrightarrow> AllowAccess p"
    using assms(2) by blast
  moreover have "False \<or> (\<exists>p\<in>set P. policy_pattern_matches cr r p)"
    using assms(3) by blast
  ultimately have "internal_error (doPoliciesAllow_loop cr r P False) \<or>
        doPoliciesAllow_loop cr r P False = None"
    by (rule loop_without_deny_pattern)
  then show ?thesis
    using assms(1) loop_compiles_no_internal_error [of P cr r False]
    by (auto simp: IsAllowed_def doPoliciesAllow_def)
qed

theorem allow_without_deny_witness:
  "IsAllowed sample_compiler (\<lambda>subject. Inr [peter_policy\<lparr>Actions := [''view'']\<rparr>, peter_policy])
     peter_request = None"
proof -
  let ?P = "[peter_policy\<lparr>Actions := [''view'']\<rparr>, peter_policy]"
  have a: "\<forall>p\<in>set ?P. \<not> AllowAccess p \<longrightarrow> \<not> policy_matches sample_compiler peter_request p"
    by (simp add: run_engine run_matches)
  have b: "\<exists>p\<in>set ?P. AllowAccess p \<and> policy_pattern_matches sample_compiler peter_request p"
    by (simp add: run_engine run_pattern_matches)
  have c: "\<forall>p\<in>set ?P. compiles sample_compiler p"
    by (simp add: run_engine run_matches)
  from allow_without_deny [of "\<lambda>subject. Inr ?P" peter_request ?P sample_compiler, OF _ a b] c
  show ?thesis by simp
qed

text \<open>
  Claim C3, as stated, fails: the only policy has an action pattern that does not
  compile, so it does not match, and the result is the compile error, not the denied
  result.
\<close>

theorem broken_policy_alone:
  "\<not> policy_matches sample_compiler peter_request broken_policy
   \<and> IsAllowed sample_compiler (\<lambda>subject. Inr [broken_policy]) peter_request
       = Some (Wrapped (External ''Unbalanced braces''))"
  by (simp add: run_engine run_matches)

text \<open>
  Claim C3, amended. When the Manager returns the policies \<open>P\<close> and no policy of \<open>P\<close>
  matches the request, \<^verbatim>\<open>IsAllowed\<close> returns the denied result or an internal error,
  never the allowed result; it returns the denied result whenever every pattern of every
  policy of \<open>P\<close> compiles, and so whenever \<open>P\<close> is empty.
\<close>

theorem denied_by_default:
  assumes "fps (Subject r) = Inr P" and "\<forall>p\<in>set P. \<not> policy_matches cr r p"
  shows "(IsAllowed cr fps r = Some (Wrapped ErrForbidden) \<or> internal_error (IsAllowed cr fps r))
       \<and> ((\<forall>p\<in>set P. compiles cr p) \<longrightarrow> IsAllowed cr fps r = Some (Wrapped ErrForbidden))
       \<and> (P = [] \<longrightarrow> IsAllowed cr fps r = Some (Wrapped ErrForbidden))"
proof -
  have "\<forall>p\<in>set P. policy_matches cr r p \<longrightarrow> AllowAccess p"
    using assms(2) by blast
  from loop_without_deny [OF this, of False] assms(2)
  have "internal_error (doPoliciesAllow_loop cr r P False) \<or>
        doPoliciesAllow_loop cr r P False = Some (Wrapped ErrForbidden)"
    by (auto split: if_splits)
  then show ?thesis
    using assms(1) loop_compiles_no_internal_error [of P cr r False]
    by (auto simp: IsAllowed_def doPoliciesAllow_def)
qed

theorem denied_by_default_witness:
  "IsAllowed sample_compiler (\<lambda>subject. Inr [peter_policy\<lparr>Actions := [''view'']\<rparr>])
     peter_request = Some (Wrapped ErrForbidden)
   \<and> IsAllowed sample_compiler (\<lambda>subject. Inr []) peter_request = Some (Wrapped ErrForbidden)"
proof -
  let ?P = "[peter_policy\<lparr>Actions := [''view'']\<rparr>]"
  have a: "\<forall>p\<in>set ?P. \<not> policy_matches sample_compiler peter_request p"
    by (simp add: run_engine run_matches)
  have c: "\<forall>p\<in>set ?P. compiles sample_compiler p"
    by (simp add: run_engine run_matches)
  from denied_by_default [of "\<lambda>subject. Inr ?P" peter_request ?P sample_compiler, OF _ a] c
    denied_by_default [of "\<lambda>subject. Inr []" peter_request "[]" sample_compiler]
  show ?thesis by simp
qed

section \<open>Errors of the collaborators\<close>

text \<open>
  Claim C6. When \<^verbatim>\<open>FindPoliciesForSubject\<close> returns an error, \<^verbatim>\<open>IsAllowed\<close> returns
  that error, wrapped. When it returns the policies \<open>P\<close> and some pattern handed to the
  compiler during the evaluation fails to compile with the error \<open>err\<close>, \<^verbatim>\<open>IsAllowed\<close>
  returns \<open>err\<close>, as it is or wrapped. Such a result is neither the allowed result nor the
  denied result.
\<close>

theorem internal_errors_are_returned:
  "(\<forall>err. fps (Subject r) = Inl err \<longrightarrow> IsAllowed cr fps r = Some (Wrapped (External err)))
   \<and> (\<forall>P p h err.
         fps (Subject r) = Inr P \<and> (p, h) \<in> set (doPoliciesAllow_scanned cr r P) \<and>
         cr h (GetStartDelimiter p) (GetEndDelimiter p) = Inl err \<longrightarrow>
         IsAllowed cr fps r = Some (External err) \<or>
         IsAllowed cr fps r = Some (Wrapped (External err)))
   \<and> (\<forall>err. IsAllowed cr fps r = Some (External err) \<or>
             IsAllowed cr fps r = Some (Wrapped (External err)) \<longrightarrow>
             IsAllowed cr fps r \<noteq> None \<and> IsAllowed cr fps r \<noteq> Some (Wrapped ErrForbidden))"
proof (intro conjI allI impI)
  fix err assume "fps (Subject r) = Inl err"
  then show "IsAllowed cr fps r = Some (Wrapped (External err))"
    by (simp add: IsAllowed_def)
next
  fix P p h err
  assume "fps (Subject r) = Inr P \<and> (p, h) \<in> set (doPoliciesAllow_scanned cr r P) \<and>
          cr h (GetStartDelimiter p) (GetEndDelimiter p) = Inl err"
  then show "IsAllowed cr fps r = Some (External err) \<or>
             IsAllowed cr fps r = Some (Wrapped (External err))"
    using loop_scanned_failure [of p h cr r P err False]
    by (simp add: IsAllowed_def doPoliciesAllow_def)
qed auto

theorem internal_errors_are_returned_witness:
  "IsAllowed sample_compiler (\<lambda>subject. Inl ''connection refused'') peter_request
     = Some (Wrapped (External ''connection refused''))
   \<and> (broken_policy, ''<'') \<in>
       set (doPoliciesAllow_scanned sample_compiler peter_request [peter_policy, broken_policy])
   \<and> IsAllowed sample_compiler (\<lambda>subject. Inr [peter_policy, broken_policy]) peter_request
       = Some (Wrapped (External ''Unbalanced braces''))"
  using internal_errors_are_returned
          [of "\<lambda>subject. Inl ''connection refused''" peter_request sample_compiler]
        internal_errors_are_returned
          [of "\<lambda>subject. Inr [peter_policy, broken_policy]" peter_request sample_compiler]
  by (simp add: run_engine)

section \<open>Policies that cannot match\<close>

text \<open>
  Claim C9. On an empty list of patterns \<^verbatim>\<open>Match\<close> returns false and no error. So a
  policy without actions matches no request and has no part in the decision: taking it
  out of the list, wherever it stands, leaves the result of \<^verbatim>\<open>doPoliciesAllow\<close>
  unchanged. In the older engine, which has no special case for a request without a
  resource, the same holds of a policy without resources.
\<close>

theorem empty_pattern_list_never_matches:
  "Match cr p [] s = Inr False
   \<and> (Actions p = [] \<longrightarrow>
        \<not> policy_matches cr r p \<and>
        doPoliciesAllow cr r (xs @ p # ys) = doPoliciesAllow cr r (xs @ ys))
   \<and> (Resources p = [] \<longrightarrow>
        doPoliciesAllow_legacy cr r (xs @ p # ys) = doPoliciesAllow_legacy cr r (xs @ ys))"
  by (simp add: doPoliciesAllow_def doPoliciesAllow_legacy_def loop_drop_empty_actions
        legacy_loop_drop_empty_resources policy_matches_def action_matches_def)

theorem empty_pattern_list_never_matches_witness:
  "doPoliciesAllow sample_compiler peter_request
     [peter_policy, deny_policy\<lparr>Actions := []\<rparr>, peter_policy]
     = doPoliciesAllow sample_compiler peter_request [peter_policy, peter_policy]
   \<and> doPoliciesAllow sample_compiler peter_request [peter_policy, peter_policy] = None
   \<and> doPoliciesAllow_legacy sample_compiler peter_request [deny_policy]
     = doPoliciesAllow_legacy sample_compiler peter_request []
   \<and> doPoliciesAllow_legacy sample_compiler peter_request [] = Some (Wrapped ErrForbidden)"
  using empty_pattern_list_never_matches
          [of sample_compiler "deny_policy\<lparr>Actions := []\<rparr>" "[]" peter_request
              "[peter_policy]" "[peter_policy]"]
        empty_pattern_list_never_matches
          [of sample_compiler deny_policy "[]" peter_request "[]" "[]"]
  by (simp add: run_engine run_legacy)

section \<open>Creating a policy in Redis\<close>

text \<open>
  Claim C10. When the policy is encoded and \<^verbatim>\<open>HSetNX\<close> reports that the key was not set,
  \<^verbatim>\<open>Create\<close> returns the error "Policy exists", whatever error value \<^verbatim>\<open>HSetNX\<close>
  returned with the flag: also when the operation failed in the store.
\<close>

theorem Create_not_set_is_conflict:
  assumes "marshal policy = Inr payload"
    and "hsetnx (redisPoliciesKey m) (GetID policy) payload db = ((False, err), db')"
  shows "fst (Create marshal hsetnx m policy db) = Some (ErrorString ''Policy exists'')"
  using assms by (simp add: Create_def)

theorem Create_not_set_is_conflict_witness:
  "fst (Create (\<lambda>policy. Inr ''{}'')
          (\<lambda>key field payload db. ((False, Some ''connection refused''), db))
          \<lparr>keyPrefix = []\<rparr> peter_policy ())
     = Some (ErrorString ''Policy exists'')"
  using Create_not_set_is_conflict
          [of "\<lambda>policy. Inr ''{}''" peter_policy "''{}''"
              "\<lambda>key field payload db. ((False, Some ''connection refused''), db)"
              "\<lparr>keyPrefix = []\<rparr>" "()" "Some ''connection refused''" "()"]
  by simp

section \<open>The subject check and the resource check\<close>

text \<open>
  Claim C4. Take a policy \<open>p\<close> at the head of the loop that has passed the action check
  and the subject check. If the request names no resource and \<open>p\<close> declares no resource
  patterns, the resource check passes: the evaluation goes on to the conditions, and \<open>p\<close>
  counts if they are fulfilled. Otherwise, if some resource pattern matches (\<^verbatim>\<open>Match\<close>
  returns true), it passes in the same way; and if no resource pattern of \<open>p\<close> matches the
  resource, \<open>p\<close> does not pass: it is left out, or the evaluation stops with a compile
  error. Consequently, whenever the compiler makes the pattern \<^verbatim>\<open>peter\<close> match the
  subject peter and the pattern \<^verbatim>\<open><.*>\<close> match the action delete, the policy and the
  request of the first scenario give the allowed result.
\<close>

theorem resource_check:
  assumes "Match cr p (Actions p) (Action r) = Inr True" and "subject_matches cr r p"
  shows "(Resource r = [] \<and> Resources p = [] \<longrightarrow>
            doPoliciesAllow_loop cr r (p # ps) a =
              (if \<not> passesConditions p r then doPoliciesAllow_loop cr r ps a
               else if \<not> AllowAccess p then Some (Wrapped ErrForbidden)
               else doPoliciesAllow_loop cr r ps True))
       \<and> (\<not> (Resource r = [] \<and> Resources p = []) \<and>
          Match cr p (Resources p) (Resource r) = Inr True \<longrightarrow>
            some_pattern_matches cr p (Resources p) (Resource r) \<and>
            doPoliciesAllow_loop cr r (p # ps) a =
              (if \<not> passesConditions p r then doPoliciesAllow_loop cr r ps a
               else if \<not> AllowAccess p then Some (Wrapped ErrForbidden)
               else doPoliciesAllow_loop cr r ps True))
       \<and> (\<not> (Resource r = [] \<and> Resources p = []) \<and>
          \<not> some_pattern_matches cr p (Resources p) (Resource r) \<longrightarrow>
            doPoliciesAllow_loop cr r (p # ps) a = doPoliciesAllow_loop cr r ps a \<or>
            (\<exists>err. doPoliciesAllow_loop cr r (p # ps) a = Some (Wrapped (External err))))
       \<and> (\<forall>cr' fps' reg1 reg2.
            cr' ''peter'' CHR ''<'' CHR ''>'' = Inr reg1 \<and> reg1 ''peter'' \<and>
            cr' ''<.*>'' CHR ''<'' CHR ''>'' = Inr reg2 \<and> reg2 ''delete'' \<and>
            fps' ''peter'' = Inr [peter_policy] \<longrightarrow>
            IsAllowed cr' fps' peter_request = (None :: 'e error option))"
proof (intro conjI impI allI)
  assume "Resource r = [] \<and> Resources p = []"
  then show "doPoliciesAllow_loop cr r (p # ps) a =
      (if \<not> passesConditions p r then doPoliciesAllow_loop cr r ps a
       else if \<not> AllowAccess p then Some (Wrapped ErrForbidden)
       else doPoliciesAllow_loop cr r ps True)"
    using assms by (auto simp: doPoliciesAllow_loop.simps(2) subject_matches_def)
next
  assume h: "\<not> (Resource r = [] \<and> Resources p = []) \<and>
             Match cr p (Resources p) (Resource r) = Inr True"
  then show "some_pattern_matches cr p (Resources p) (Resource r)"
    by (simp add: Match_True_some_pattern)
  from h show "doPoliciesAllow_loop cr r (p # ps) a =
      (if \<not> passesConditions p r then doPoliciesAllow_loop cr r ps a
       else if \<not> AllowAccess p then Some (Wrapped ErrForbidden)
       else doPoliciesAllow_loop cr r ps True)"
    using assms by (auto simp: doPoliciesAllow_loop.simps(2) subject_matches_def)
next
  assume h: "\<not> (Resource r = [] \<and> Resources p = []) \<and>
             \<not> some_pattern_matches cr p (Resources p) (Resource r)"
  then have "Match cr p (Resources p) (Resource r) = Inr False \<or>
             (\<exists>err. Match cr p (Resources p) (Resource r) = Inl err)"
    by (simp add: no_pattern_Match)
  then show "doPoliciesAllow_loop cr r (p # ps) a = doPoliciesAllow_loop cr r ps a \<or>
             (\<exists>err. doPoliciesAllow_loop cr r (p # ps) a = Some (Wrapped (External err)))"
    using assms h by (auto simp: doPoliciesAllow_loop.simps(2) subject_matches_def)
next
  fix cr' :: "'e compiler" and fps' :: "string \<Rightarrow> 'e + unit DefaultPolicy list"
    and reg1 reg2
  assume "cr' ''peter'' CHR ''<'' CHR ''>'' = Inr reg1 \<and> reg1 ''peter'' \<and>
          cr' ''<.*>'' CHR ''<'' CHR ''>'' = Inr reg2 \<and> reg2 ''delete'' \<and>
          fps' ''peter'' = Inr [peter_policy]"
  then show "IsAllowed cr' fps' peter_request = None"
    by (simp add: IsAllowed_def doPoliciesAllow_def doPoliciesAllow_loop.simps(2)
          passesConditions_def AllowAccess_def AllowAccess_effect_def GetStartDelimiter_def
          GetEndDelimiter_def peter_policy_def peter_request_def)
qed

theorem resource_check_witness:
  "doPoliciesAllow_loop sample_compiler peter_request [peter_policy] False = None
   \<and> doPoliciesAllow_loop sample_compiler (peter_request\<lparr>Resource := ''articles''\<rparr>)
       [peter_policy\<lparr>Resources := [''articles'']\<rparr>] False = None
   \<and> doPoliciesAllow_loop sample_compiler (peter_request\<lparr>Resource := ''articles''\<rparr>)
       [peter_policy] False = Some (Wrapped ErrForbidden)
   \<and> IsAllowed sample_compiler (\<lambda>subject. Inr [peter_policy]) peter_request = None"
  using resource_check [of sample_compiler peter_policy peter_request "[]" False]
        resource_check [of sample_compiler "peter_policy\<lparr>Resources := [''articles'']\<rparr>"
                           "peter_request\<lparr>Resource := ''articles''\<rparr>" "[]" False]
        resource_check [of sample_compiler peter_policy
                           "peter_request\<lparr>Resource := ''articles''\<rparr>" "[]" False]
  by (simp add: run_engine run_matches some_pattern_matches_def)

text \<open>
  Claim C5. Take a policy \<open>p\<close> at the head of the loop that has reached the subject check
  (it passed the action check, and in the older engine the resource check before it). If
  \<open>p\<close> declares subject patterns and none of them matches the subject of the request, \<open>p\<close>
  does not pass: it is left out, or the evaluation stops with a compile error. If \<open>p\<close>
  declares no subject pattern, the check passes whatever the subject is: \<open>p\<close> counts as
  soon as its resources and conditions admit the request.
\<close>

theorem subject_check:
  "(Match cr p (Actions p) (Action r) = Inr True \<longrightarrow>
      (Subjects p \<noteq> [] \<and> \<not> some_pattern_matches cr p (Subjects p) (Subject r) \<longrightarrow>
         doPoliciesAllow_loop cr r (p # ps) a = doPoliciesAllow_loop cr r ps a \<or>
         (\<exists>err. doPoliciesAllow_loop cr r (p # ps) a = Some (External err)))
      \<and> (Subjects p = [] \<and> resource_matches cr r p \<and> passesConditions p r \<longrightarrow>
         doPoliciesAllow_loop cr r (p # ps) a =
           (if AllowAccess p then doPoliciesAllow_loop cr r ps True
            else Some (Wrapped ErrForbidden))))
   \<and> (Match cr p (Resources p) (Resource r) = Inr True \<and>
      Match cr p (Actions p) (Action r) = Inr True \<longrightarrow>
      (Subjects p \<noteq> [] \<and> \<not> some_pattern_matches cr p (Subjects p) (Subject r) \<longrightarrow>
         doPoliciesAllow_legacy_loop cr r (p # ps) a = doPoliciesAllow_legacy_loop cr r ps a \<or>
         (\<exists>err. doPoliciesAllow_legacy_loop cr r (p # ps) a = Some (External err)))
      \<and> (Subjects p = [] \<and> passesConditions p r \<longrightarrow>
         doPoliciesAllow_legacy_loop cr r (p # ps) a =
           (if AllowAccess p then doPoliciesAllow_legacy_loop cr r ps True
            else Some (Wrapped ErrForbidden))))"
proof (intro conjI impI)
  assume A: "Match cr p (Actions p) (Action r) = Inr True"
    and h: "Subjects p \<noteq> [] \<and> \<not> some_pattern_matches cr p (Subjects p) (Subject r)"
  from h have "Match cr p (Subjects p) (Subject r) = Inr False \<or>
               (\<exists>err. Match cr p (Subjects p) (Subject r) = Inl err)"
    by (simp add: no_pattern_Match)
  then show "doPoliciesAllow_loop cr r (p # ps) a = doPoliciesAllow_loop cr r ps a \<or>
             (\<exists>err. doPoliciesAllow_loop cr r (p # ps) a = Some (External err))"
    using A h by (auto simp: doPoliciesAllow_loop.simps(2))
next
  assume A: "Match cr p (Actions p) (Action r) = Inr True"
    and h: "Subjects p = [] \<and> resource_matches cr r p \<and> passesConditions p r"
  then have "policy_matches cr r p"
    by (simp add: policy_matches_def action_matches_def subject_matches_def)
  then show "doPoliciesAllow_loop cr r (p # ps) a =
      (if AllowAccess p then doPoliciesAllow_loop cr r ps True
       else Some (Wrapped ErrForbidden))"
    by (rule loop_policy_matches)
next
  assume A: "Match cr p (Resources p) (Resource r) = Inr True \<and>
             Match cr p (Actions p) (Action r) = Inr True"
    and h: "Subjects p \<noteq> [] \<and> \<not> some_pattern_matches cr p (Subjects p) (Subject r)"
  from h have "Match cr p (Subjects p) (Subject r) = Inr False \<or>
               (\<exists>err. Match cr p (Subjects p) (Subject r) = Inl err)"
    by (simp add: no_pattern_Match)
  then show "doPoliciesAllow_legacy_loop cr r (p # ps) a =
               doPoliciesAllow_legacy_loop cr r ps a \<or>
             (\<exists>err. doPoliciesAllow_legacy_loop cr r (p # ps) a = Some (External err))"
    using A h by (auto simp: doPoliciesAllow_legacy_loop.simps(2))
next
  assume A: "Match cr p (Resources p) (Resource r) = Inr True \<and>
             Match cr p (Actions p) (Action r) = Inr True"
    and h: "Subjects p = [] \<and> passesConditions p r"
  then show "doPoliciesAllow_legacy_loop cr r (p # ps) a =
      (if AllowAccess p then doPoliciesAllow_legacy_loop cr r ps True
       else Some (Wrapped ErrForbidden))"
    by (simp add: doPoliciesAllow_legacy_loop.simps(2))
qed

theorem subject_check_witness:
  "doPoliciesAllow_loop sample_compiler peter_request
     [peter_policy\<lparr>Subjects := [''paul'']\<rparr>] False = Some (Wrapped ErrForbidden)
   \<and> doPoliciesAllow_loop sample_compiler peter_request
       [peter_policy\<lparr>Subjects := []\<rparr>] False = None
   \<and> doPoliciesAllow_legacy_loop sample_compiler (peter_request\<lparr>Resource := ''articles''\<rparr>)
       [peter_policy\<lparr>Subjects := [''paul''], Resources := [''articles'']\<rparr>] False
       = Some (Wrapped ErrForbidden)
   \<and> doPoliciesAllow_legacy_loop sample_compiler (peter_request\<lparr>Resource := ''articles''\<rparr>)
       [peter_policy\<lparr>Subjects := [], Resources := [''articles'']\<rparr>] False = None"
  using subject_check [of sample_compiler "peter_policy\<lparr>Subjects := [''paul'']\<rparr>"
                          peter_request "[]" False]
        subject_check [of sample_compiler "peter_policy\<lparr>Subjects := []\<rparr>"
                          peter_request "[]" False]
        subject_check [of sample_compiler
                          "peter_policy\<lparr>Subjects := [''paul''], Resources := [''articles'']\<rparr>"
                          "peter_request\<lparr>Resource := ''articles''\<rparr>" "[]" False]
        subject_check [of sample_compiler
                          "peter_policy\<lparr>Subjects := [], Resources := [''articles'']\<rparr>"
                          "peter_request\<lparr>Resource := ''articles''\<rparr>" "[]" False]
  by (simp add: run_engine run_legacy run_matches some_pattern_matches_def)

end
